theory Spec2Isabelle
  imports Main "HOL-Library.Word" "HOL-Library.Signed_Division"
begin

unbundle bit_operations_syntax

section \<open>The embedded controller as seen by msi-ec.c\<close>

text \<open>
  The driver reaches the hardware through two platform calls only,
  \<^verbatim>\<open>ec_read(u8 addr, u8 *val)\<close> and \<^verbatim>\<open>ec_write(u8 addr, u8 val)\<close>, both returning
  0 or a negative errno.  The register file is a function from 8-bit addresses to
  bytes.  Every transport call consumes one entry of a schedule of outcomes
  (\<open>None\<close>: the call succeeds, \<open>Some e\<close>: it fails with \<open>-e\<close>); an exhausted schedule
  means success.  Each call is appended to \<open>trace\<close>, each \<^verbatim>\<open>pr_err\<close> to \<open>klog\<close>.
\<close>

type_synonym u8 = "8 word"

datatype errno = EINVAL | EIO | ENODEV | ETIME

datatype ec_event = EcRead u8 | EcWrite u8 u8

datatype log_entry = Log_read_failed u8 nat errno | Log_write_failed u8 nat errno

record ec =
  regs :: "u8 \<Rightarrow> u8"
  faults :: "errno option list"
  trace :: "ec_event list"
  klog :: "log_entry list"

definition next_fault :: "ec \<Rightarrow> errno option" where
  "next_fault s = (case faults s of [] \<Rightarrow> None | f # _ \<Rightarrow> f)"

definition ec_read :: "u8 \<Rightarrow> ec \<Rightarrow> (errno + u8) \<times> ec" where
  "ec_read addr s =
     (let s' = s\<lparr>faults := tl (faults s), trace := trace s @ [EcRead addr]\<rparr>
      in case next_fault s of
           Some e \<Rightarrow> (Inl e, s')
         | None \<Rightarrow> (Inr (regs s addr), s'))"

definition ec_write :: "u8 \<Rightarrow> u8 \<Rightarrow> ec \<Rightarrow> (errno + unit) \<times> ec" where
  "ec_write addr data s =
     (let s' = s\<lparr>faults := tl (faults s), trace := trace s @ [EcWrite addr data]\<rparr>
      in case next_fault s of
           Some e \<Rightarrow> (Inl e, s')
         | None \<Rightarrow> (Inr (), s'\<lparr>regs := (regs s)(addr := data)\<rparr>))"

text \<open>\<open>next_ok n s\<close>: none of the next \<open>n\<close> transport calls fails.\<close>

definition next_ok :: "nat \<Rightarrow> ec \<Rightarrow> bool" where
  "next_ok n s = list_all (\<lambda>f. f = None) (take n (faults s))"

section \<open>Bit and byte codec\<close>

text \<open>
  \<^verbatim>\<open>ec_write_bit\<close>: read, \<^verbatim>\<open>data |= (1UL << index)\<close> or \<^verbatim>\<open>data &= ~(1UL << index)\<close>
  computed in \<^verbatim>\<open>unsigned long\<close> (64 bits) and truncated back to \<^verbatim>\<open>u8\<close>, write.
\<close>

definition set_or_clear :: "u8 \<Rightarrow> u8 \<Rightarrow> bool \<Rightarrow> u8" where
  "set_or_clear data index setv =
     (if setv then ucast ((ucast data :: 64 word) OR push_bit (unat index) 1)
      else ucast ((ucast data :: 64 word) AND NOT (push_bit (unat index) 1)))"

definition ec_write_bit :: "u8 \<Rightarrow> u8 \<Rightarrow> bool \<Rightarrow> ec \<Rightarrow> (errno + unit) \<times> ec" where
  "ec_write_bit addr index setv s =
     (case ec_read addr s of
        (Inl e, s1) \<Rightarrow> (Inl e, s1)
      | (Inr data, s1) \<Rightarrow> ec_write addr (set_or_clear data index setv) s1)"

text \<open>\<^verbatim>\<open>is_bit_set\<close>: \<^verbatim>\<open>(byte >> index) & 1UL\<close> converted to \<^verbatim>\<open>bool\<close>.\<close>

definition is_bit_set :: "u8 \<Rightarrow> u8 \<Rightarrow> bool" where
  "is_bit_set index byte = ((ucast (drop_bit (unat index) byte) :: 64 word) AND 1 \<noteq> 0)"

text \<open>\<^verbatim>\<open>ec_read_seq\<close>: \<open>len\<close> single reads at \<open>addr + i\<close> (the sum wraps as \<^verbatim>\<open>u8\<close>).\<close>

fun ec_read_seq :: "u8 \<Rightarrow> nat \<Rightarrow> ec \<Rightarrow> (errno + u8 list) \<times> ec" where
  "ec_read_seq addr 0 s = (Inr [], s)"
| "ec_read_seq addr (Suc len) s =
     (case ec_read addr s of
        (Inl e, s1) \<Rightarrow> (Inl e, s1)
      | (Inr b, s1) \<Rightarrow>
          (case ec_read_seq (addr + 1) len s1 of
             (Inl e, s2) \<Rightarrow> (Inl e, s2)
           | (Inr bs, s2) \<Rightarrow> (Inr (b # bs), s2)))"

section \<open>Constants of the board\<close>

text \<open>
  \<^verbatim>\<open>constants.h\<close> is not among the sources at hand, so every macro and table that
  the functions below use is a field of the record \<open>constants\<close> and every function takes
  the record as its first argument.  Addresses and bit indices are passed to \<^verbatim>\<open>u8\<close>
  parameters; column and preset numbers are compared with the \<^verbatim>\<open>int\<close> loop counters.
\<close>

record constants =
  MSI_EC_FAN_MODE_ADDRESS :: u8
  MSI_EC_FAN_MODE_SILENT_BIT :: u8
  MSI_EC_FAN_MODE_ADVANCED_BIT :: u8
  MSI_EC_FAN_MODE_BASIC_BIT :: u8
  MSI_EC_PRESET_MEMORY_TABLE :: "u8 list"
  MSI_EC_PRESET_VALUE_TABLE :: "u8 list list"
  MSI_EC_PRESET_COLUMN_KBD_BL :: nat
  MSI_EC_PRESET_COLUMN_SILENT_FLAG :: nat
  MSI_EC_PRESET_SUPER_BATTERY :: nat
  MSI_EC_PRESET_SILENT :: nat
  MSI_EC_PRESET_BALANCED :: nat
  MSI_EC_PRESET_HIGH_PERFORMANCE :: nat
  MSI_EC_FW_DATE_ADDRESS :: u8
  MSI_EC_FW_DATE_LENGTH :: nat
  MSI_EC_FW_TIME_ADDRESS :: u8
  MSI_EC_FW_TIME_LENGTH :: nat
  MSI_EC_CPU_REALTIME_FAN_SPEED_ADDRESS :: u8
  MSI_EC_CPU_REALTIME_FAN_SPEED_BASE_MIN :: int
  MSI_EC_CPU_REALTIME_FAN_SPEED_BASE_MAX :: int

section \<open>Text in and out\<close>

text \<open>
  \<^verbatim>\<open>#define streq(x, y) (strcmp(x, y) == 0 || strcmp(x, y "\n") == 0)\<close>.
  A \<^verbatim>\<open>show\<close> function returns \<open>Inr text\<close>, the text \<^verbatim>\<open>sprintf\<close> put into the buffer
  (the C return value is its length), or \<open>Inl e\<close> for the return value \<open>-e\<close>.
  A \<^verbatim>\<open>store\<close> function returns \<open>Inr count\<close> or \<open>Inl e\<close>.
\<close>

definition newline :: char where
  "newline = CHR 0x0A"

definition streq :: "string \<Rightarrow> string \<Rightarrow> bool" where
  "streq x y = (x = y \<or> x = y @ [newline])"

definition sprintf_s :: "string \<Rightarrow> string" where
  "sprintf_s str = str @ [newline]"

section \<open>Fan mode\<close>

definition fan_mode_show :: "constants \<Rightarrow> ec \<Rightarrow> (errno + string) \<times> ec" where
  "fan_mode_show K s =
     (case ec_read (MSI_EC_FAN_MODE_ADDRESS K) s of
        (Inl e, s1) \<Rightarrow> (Inl e, s1)
      | (Inr rdata, s1) \<Rightarrow>
          (if is_bit_set (MSI_EC_FAN_MODE_SILENT_BIT K) rdata then (Inr (sprintf_s ''silent''), s1)
           else if is_bit_set (MSI_EC_FAN_MODE_ADVANCED_BIT K) rdata
             then (Inr (sprintf_s ''advanced''), s1)
           else if is_bit_set (MSI_EC_FAN_MODE_BASIC_BIT K) rdata
             then (Inr (sprintf_s ''basic''), s1)
           else (Inr (sprintf_s ''auto''), s1)))"

definition fan_mode_store :: "constants \<Rightarrow> string \<Rightarrow> nat \<Rightarrow> ec \<Rightarrow> (errno + nat) \<times> ec" where
  "fan_mode_store K buf count s =
     (let is_auto = streq buf ''auto'';
          is_silent = streq buf ''silent'';
          is_basic = streq buf ''basic'';
          is_adv = streq buf ''advanced''
      in if \<not> is_auto \<and> \<not> is_basic \<and> \<not> is_adv \<and> \<not> is_silent then (Inl EINVAL, s)
         else
           case ec_write_bit (MSI_EC_FAN_MODE_ADDRESS K) (MSI_EC_FAN_MODE_BASIC_BIT K) is_basic s of
             (Inl e, s1) \<Rightarrow> (Inl e, s1)
           | (Inr _, s1) \<Rightarrow>
              (case ec_write_bit (MSI_EC_FAN_MODE_ADDRESS K) (MSI_EC_FAN_MODE_ADVANCED_BIT K)
                      is_adv s1 of
                 (Inl e, s2) \<Rightarrow> (Inl e, s2)
               | (Inr _, s2) \<Rightarrow>
                  (case ec_write_bit (MSI_EC_FAN_MODE_ADDRESS K) (MSI_EC_FAN_MODE_SILENT_BIT K)
                          is_silent s2 of
                     (Inl e, s3) \<Rightarrow> (Inl e, s3)
                   | (Inr _, s3) \<Rightarrow> (Inr count, s3))))"

section \<open>Presets\<close>

text \<open>
  The inner loop of \<^verbatim>\<open>preset_show\<close> over the columns still to be checked for row
  \<open>v\<close>; the result is the final value of \<^verbatim>\<open>match\<close>.  The table's byte is compared
  with the \<^verbatim>\<open>bool\<close> that \<^verbatim>\<open>is_bit_set\<close> returns, promoted to 0 or 1.
\<close>

fun preset_match_cols :: "constants \<Rightarrow> nat \<Rightarrow> nat list \<Rightarrow> ec \<Rightarrow> bool \<times> ec" where
  "preset_match_cols K v [] s = (True, s)"
| "preset_match_cols K v (c # cs) s =
     (let addr = MSI_EC_PRESET_MEMORY_TABLE K ! c;
          val = MSI_EC_PRESET_VALUE_TABLE K ! v ! c
      in case ec_read addr s of
           (Inl e, s1) \<Rightarrow> (False, s1\<lparr>klog := klog s1 @ [Log_read_failed addr v e]\<rparr>)
         | (Inr rdata, s1) \<Rightarrow>
             if c = MSI_EC_PRESET_COLUMN_KBD_BL K then preset_match_cols K v cs s1
             else if c = MSI_EC_PRESET_COLUMN_SILENT_FLAG K then
               (if val = of_bool (is_bit_set (MSI_EC_FAN_MODE_SILENT_BIT K) rdata)
                then preset_match_cols K v cs s1
                else (False, s1))
             else if val \<noteq> rdata then (False, s1)
             else preset_match_cols K v cs s1)"

text \<open>The \<^verbatim>\<open>switch (v)\<close> of \<^verbatim>\<open>preset_show\<close>; \<open>None\<close> when no case label equals \<open>v\<close>.\<close>

definition preset_name :: "constants \<Rightarrow> nat \<Rightarrow> string option" where
  "preset_name K v =
     (if v = MSI_EC_PRESET_SUPER_BATTERY K then Some ''super_battery''
      else if v = MSI_EC_PRESET_SILENT K then Some ''silent''
      else if v = MSI_EC_PRESET_BALANCED K then Some ''balanced''
      else if v = MSI_EC_PRESET_HIGH_PERFORMANCE K then Some ''high_performance''
      else None)"

definition preset_columns :: "constants \<Rightarrow> nat list" where
  "preset_columns K = [0 ..< length (MSI_EC_PRESET_MEMORY_TABLE K)]"

fun preset_show_rows :: "constants \<Rightarrow> nat list \<Rightarrow> ec \<Rightarrow> (errno + string) \<times> ec" where
  "preset_show_rows K [] s = (Inr (sprintf_s ''custom''), s)"
| "preset_show_rows K (v # vs) s =
     (case preset_match_cols K v (preset_columns K) s of
        (match, s1) \<Rightarrow>
          if match then
            (case preset_name K v of
               Some name \<Rightarrow> (Inr (sprintf_s name), s1)
             | None \<Rightarrow> preset_show_rows K vs s1)
          else preset_show_rows K vs s1)"

definition preset_show :: "constants \<Rightarrow> ec \<Rightarrow> (errno + string) \<times> ec" where
  "preset_show K s = preset_show_rows K [0 ..< length (MSI_EC_PRESET_VALUE_TABLE K)] s"

definition preset_index :: "constants \<Rightarrow> string \<Rightarrow> nat option" where
  "preset_index K buf =
     (if streq buf ''super_battery'' then Some (MSI_EC_PRESET_SUPER_BATTERY K)
      else if streq buf ''silent'' then Some (MSI_EC_PRESET_SILENT K)
      else if streq buf ''balanced'' then Some (MSI_EC_PRESET_BALANCED K)
      else if streq buf ''high_performance'' then Some (MSI_EC_PRESET_HIGH_PERFORMANCE K)
      else None)"

text \<open>
  The column loop of \<^verbatim>\<open>preset_store\<close>.  The table's byte is converted to the \<^verbatim>\<open>bool\<close>
  parameter of \<^verbatim>\<open>ec_write_bit\<close>; a failed write is logged and the loop goes on.
\<close>

definition preset_write_col :: "constants \<Rightarrow> nat \<Rightarrow> nat \<Rightarrow> ec \<Rightarrow> ec" where
  "preset_write_col K index c s =
     (let addr = MSI_EC_PRESET_MEMORY_TABLE K ! c;
          val = MSI_EC_PRESET_VALUE_TABLE K ! index ! c
      in case (if c = MSI_EC_PRESET_COLUMN_SILENT_FLAG K
               then ec_write_bit addr (MSI_EC_FAN_MODE_SILENT_BIT K) (val \<noteq> 0) s
               else ec_write addr val s) of
           (Inl e, s1) \<Rightarrow> s1\<lparr>klog := klog s1 @ [Log_write_failed addr index e]\<rparr>
         | (Inr _, s1) \<Rightarrow> s1)"

fun preset_write_cols :: "constants \<Rightarrow> nat \<Rightarrow> nat list \<Rightarrow> ec \<Rightarrow> ec" where
  "preset_write_cols K index [] s = s"
| "preset_write_cols K index (c # cs) s =
     preset_write_cols K index cs (preset_write_col K index c s)"

text \<open>The block under \<^verbatim>\<open>Validate fan modes\<close>; both results are discarded.\<close>

definition preset_validate_fan_modes :: "constants \<Rightarrow> nat \<Rightarrow> ec \<Rightarrow> ec" where
  "preset_validate_fan_modes K index s =
     (if index \<noteq> MSI_EC_PRESET_HIGH_PERFORMANCE K then
        (let s1 = snd (ec_write_bit (MSI_EC_FAN_MODE_ADDRESS K)
                         (MSI_EC_FAN_MODE_ADVANCED_BIT K) False s)
         in snd (ec_write_bit (MSI_EC_FAN_MODE_ADDRESS K)
                   (MSI_EC_FAN_MODE_BASIC_BIT K) False s1))
      else s)"

definition preset_store :: "constants \<Rightarrow> string \<Rightarrow> nat \<Rightarrow> ec \<Rightarrow> (errno + nat) \<times> ec" where
  "preset_store K buf count s =
     (case preset_index K buf of
        None \<Rightarrow> (Inl EINVAL, s)
      | Some index \<Rightarrow>
          (Inr count,
           preset_validate_fan_modes K index
             (preset_write_cols K index (preset_columns K) s)))"

section \<open>Firmware release date\<close>

text \<open>
  The two \<^verbatim>\<open>sscanf\<close> calls use the kernel's \<^verbatim>\<open>vsscanf\<close>, restricted here to what
  their formats contain: ordinary characters, which must match the input, and \<^verbatim>\<open>%0Nd\<close>,
  a decimal conversion of field width \<open>N\<close> that skips leading white space, accepts a
  \<^verbatim>\<open>-\<close> (counted in the width) and needs one digit at least.  Scanning stops at the
  first directive that fails; the result lists the values converted so far.
\<close>

definition isspace :: "u8 \<Rightarrow> bool" where
  "isspace c = ((9 \<le> c \<and> c \<le> 13) \<or> c = 32 \<or> c = 160)"

definition isdigit :: "u8 \<Rightarrow> bool" where
  "isdigit c = (48 \<le> c \<and> c \<le> 57)"

fun parse_integer_limit :: "u8 list \<Rightarrow> nat \<Rightarrow> nat \<Rightarrow> nat \<times> u8 list" where
  "parse_integer_limit [] max_chars acc = (acc, [])"
| "parse_integer_limit (c # cs) max_chars acc =
     (if max_chars = 0 \<or> \<not> isdigit c then (acc, c # cs)
      else parse_integer_limit cs (max_chars - 1) (acc * 10 + unat (c - 48)))"

definition scan_int :: "nat \<Rightarrow> u8 list \<Rightarrow> (int \<times> u8 list) option" where
  "scan_int field_width str0 =
     (let str = dropWhile isspace str0
      in case str of
           [] \<Rightarrow> None
         | c # cs \<Rightarrow>
             if c = 45 then
               (if field_width = 1 then None
                else case cs of
                       [] \<Rightarrow> None
                     | d # _ \<Rightarrow>
                         if \<not> isdigit d then None
                         else (case parse_integer_limit cs (field_width - 1) 0 of
                                 (n, rest) \<Rightarrow> Some (- int n, rest)))
             else if \<not> isdigit c then None
             else (case parse_integer_limit str field_width 0 of
                     (n, rest) \<Rightarrow> Some (int n, rest)))"

datatype directive = Conv_d nat | Ordinary u8

fun vsscanf :: "u8 list \<Rightarrow> directive list \<Rightarrow> int list" where
  "vsscanf str [] = []"
| "vsscanf str (Ordinary c # fmt) =
     (case str of [] \<Rightarrow> [] | x # xs \<Rightarrow> if c \<noteq> x then [] else vsscanf xs fmt)"
| "vsscanf str (Conv_d w # fmt) =
     (case scan_int w str of None \<Rightarrow> [] | Some (n, rest) \<Rightarrow> n # vsscanf rest fmt)"

text \<open>\<^verbatim>\<open>"%02d%02d%04d"\<close> and \<^verbatim>\<open>"%02d:%02d:%02d"\<close>.\<close>

definition date_format :: "directive list" where
  "date_format = [Conv_d 2, Conv_d 2, Conv_d 4]"

definition time_format :: "directive list" where
  "time_format = [Conv_d 2, Ordinary 58, Conv_d 2, Ordinary 58, Conv_d 2]"

text \<open>
  The buffers are zeroed and one byte longer than what is read, so \<^verbatim>\<open>sscanf\<close> sees
  the bytes read up to the first NUL.
\<close>

definition cstring :: "u8 list \<Rightarrow> u8 list" where
  "cstring bytes = takeWhile (\<lambda>b. b \<noteq> 0) bytes"

text \<open>
  The six \<^verbatim>\<open>int\<close> locals are not initialised and the results of \<^verbatim>\<open>sscanf\<close> are not
  looked at: a local that no conversion reached keeps the value it happened to have,
  which the model takes as an argument.
\<close>

record fw_locals =
  year :: int
  month :: int
  day :: int
  hour :: int
  minute :: int
  second :: int

definition assigned :: "int list \<Rightarrow> nat \<Rightarrow> int \<Rightarrow> int" where
  "assigned vals i old = (if i < length vals then vals ! i else old)"

text \<open>\<^verbatim>\<open>%0Nd\<close> and \<^verbatim>\<open>%i\<close> of \<^verbatim>\<open>sprintf\<close>: decimal digits, zero-padded to the width.\<close>

definition digit_char :: "nat \<Rightarrow> char" where
  "digit_char d = ''0123456789'' ! d"

fun dec_digits :: "nat \<Rightarrow> string" where
  "dec_digits n =
     (if n < 10 then [digit_char n] else dec_digits (n div 10) @ [digit_char (n mod 10)])"

declare dec_digits.simps [simp del]

definition zero_pad :: "nat \<Rightarrow> string \<Rightarrow> string" where
  "zero_pad w ds = replicate (w - length ds) (CHR ''0'') @ ds"

definition fmt_d :: "nat \<Rightarrow> int \<Rightarrow> string" where
  "fmt_d w n =
     (if n < 0 then CHR ''-'' # zero_pad (w - 1) (dec_digits (nat (- n)))
      else zero_pad w (dec_digits (nat n)))"

definition fw_release_date_show ::
  "constants \<Rightarrow> fw_locals \<Rightarrow> ec \<Rightarrow> (errno + string) \<times> ec" where
  "fw_release_date_show K uninit s =
     (case ec_read_seq (MSI_EC_FW_DATE_ADDRESS K) (MSI_EC_FW_DATE_LENGTH K) s of
        (Inl e, s1) \<Rightarrow> (Inl e, s1)
      | (Inr rdate, s1) \<Rightarrow>
          (let ds = vsscanf (cstring rdate) date_format;
               v1 = uninit\<lparr>month := assigned ds 0 (month uninit),
                           day := assigned ds 1 (day uninit),
                           year := assigned ds 2 (year uninit)\<rparr>
           in case ec_read_seq (MSI_EC_FW_TIME_ADDRESS K) (MSI_EC_FW_TIME_LENGTH K) s1 of
                (Inl e, s2) \<Rightarrow> (Inl e, s2)
              | (Inr rtime, s2) \<Rightarrow>
                  (let ts = vsscanf (cstring rtime) time_format;
                       v2 = v1\<lparr>hour := assigned ts 0 (hour v1),
                               minute := assigned ts 1 (minute v1),
                               second := assigned ts 2 (second v1)\<rparr>
                   in (Inr (fmt_d 4 (year v2) @ ''/'' @ fmt_d 2 (month v2) @ ''/'' @
                            fmt_d 2 (day v2) @ '' '' @ fmt_d 2 (hour v2) @ '':'' @
                            fmt_d 2 (minute v2) @ '':'' @ fmt_d 2 (second v2) @ [newline]),
                       s2))))"

section \<open>CPU fan speed\<close>

text \<open>
  \<^verbatim>\<open>100 * (rdata - MIN) / (MAX - MIN)\<close> in \<^verbatim>\<open>int\<close>; C's division truncates.
\<close>

definition cpu_realtime_fan_speed_show :: "constants \<Rightarrow> ec \<Rightarrow> (errno + string) \<times> ec" where
  "cpu_realtime_fan_speed_show K s =
     (case ec_read (MSI_EC_CPU_REALTIME_FAN_SPEED_ADDRESS K) s of
        (Inl e, s1) \<Rightarrow> (Inl e, s1)
      | (Inr rdata, s1) \<Rightarrow>
          if uint rdata < MSI_EC_CPU_REALTIME_FAN_SPEED_BASE_MIN K \<or>
             uint rdata > MSI_EC_CPU_REALTIME_FAN_SPEED_BASE_MAX K
          then (Inl EINVAL, s1)
          else (Inr (fmt_d 0 ((100 * (uint rdata - MSI_EC_CPU_REALTIME_FAN_SPEED_BASE_MIN K)) sdiv
                              (MSI_EC_CPU_REALTIME_FAN_SPEED_BASE_MAX K -
                               MSI_EC_CPU_REALTIME_FAN_SPEED_BASE_MIN K)) @ [newline]),
                s1))"

section \<open>Notions used in the statements\<close>


text \<open>\<open>issued s s'\<close>: the transport calls made on the way from \<open>s\<close> to \<open>s'\<close>.\<close>

definition issued :: "ec \<Rightarrow> ec \<Rightarrow> ec_event list" where
  "issued s s' = drop (length (trace s)) (trace s')"



section \<open>Classification as the specification words it\<close>

text \<open>
  The rule of the specification for one column of one preset: the keyboard-backlight
  column is skipped; on the fan-silent column the stored boolean is compared with the
  silent bit of the current byte; every other column needs the stored byte to equal the
  current byte.  A preset matches when all its columns do, and the classification is the
  name of the first preset of the table that matches, or \<open>custom\<close>.
\<close>

definition spec_column_matches :: "constants \<Rightarrow> (u8 \<Rightarrow> u8) \<Rightarrow> nat \<Rightarrow> nat \<Rightarrow> bool" where
  "spec_column_matches K rg v c =
     (let current = rg (MSI_EC_PRESET_MEMORY_TABLE K ! c);
          stored = MSI_EC_PRESET_VALUE_TABLE K ! v ! c
      in if c = MSI_EC_PRESET_COLUMN_KBD_BL K then True
         else if c = MSI_EC_PRESET_COLUMN_SILENT_FLAG K
           then stored = of_bool (is_bit_set (MSI_EC_FAN_MODE_SILENT_BIT K) current)
         else stored = current)"

definition spec_row_matches :: "constants \<Rightarrow> (u8 \<Rightarrow> u8) \<Rightarrow> nat \<Rightarrow> bool" where
  "spec_row_matches K rg v = list_all (spec_column_matches K rg v) (preset_columns K)"



section \<open>A sample board\<close>

text \<open>
  One instance of the constants, on which the general results below are exercised:
  four preset columns (a power byte, the shift mode, the silent flag kept in the
  fan-mode register, the keyboard backlight) and the four presets in the order of the
  \<^verbatim>\<open>switch\<close>.  The values are for illustration; every general result holds for
  every record of constants that meets its hypotheses.
\<close>

definition sample_board :: constants where
  "sample_board =
     \<lparr>MSI_EC_FAN_MODE_ADDRESS = 0xF4,
      MSI_EC_FAN_MODE_SILENT_BIT = 4,
      MSI_EC_FAN_MODE_ADVANCED_BIT = 7,
      MSI_EC_FAN_MODE_BASIC_BIT = 6,
      MSI_EC_PRESET_MEMORY_TABLE = [0xD2, 0xF2, 0xF4, 0xF3],
      MSI_EC_PRESET_VALUE_TABLE =
        [[0xC2, 0xC2, 0, 0x80],
         [0xC1, 0xC1, 1, 0x81],
         [0xC1, 0xC1, 0, 0x81],
         [0xC4, 0xC0, 0, 0x83]],
      MSI_EC_PRESET_COLUMN_KBD_BL = 3,
      MSI_EC_PRESET_COLUMN_SILENT_FLAG = 2,
      MSI_EC_PRESET_SUPER_BATTERY = 0,
      MSI_EC_PRESET_SILENT = 1,
      MSI_EC_PRESET_BALANCED = 2,
      MSI_EC_PRESET_HIGH_PERFORMANCE = 3,
      MSI_EC_FW_DATE_ADDRESS = 0xAC,
      MSI_EC_FW_DATE_LENGTH = 8,
      MSI_EC_FW_TIME_ADDRESS = 0xB4,
      MSI_EC_FW_TIME_LENGTH = 8,
      MSI_EC_CPU_REALTIME_FAN_SPEED_ADDRESS = 0x71,
      MSI_EC_CPU_REALTIME_FAN_SPEED_BASE_MIN = 0x19,
      MSI_EC_CPU_REALTIME_FAN_SPEED_BASE_MAX = 0x37\<rparr>"

text \<open>A controller whose registers all hold \<open>b\<close>, with the given schedule of outcomes.\<close>

definition fresh_ec :: "u8 \<Rightarrow> errno option list \<Rightarrow> ec" where
  "fresh_ec b fs = \<lparr>regs = (\<lambda>_. b), faults = fs, trace = [], klog = []\<rparr>"

text \<open>
  The sample board's controller with the four preset registers set and every other
  register 0.
\<close>

definition sample_ec :: "u8 \<Rightarrow> u8 \<Rightarrow> u8 \<Rightarrow> u8 \<Rightarrow> errno option list \<Rightarrow> ec" where
  "sample_ec pwr shf fan kbd fs =
     \<lparr>regs = (\<lambda>_. 0)(0xD2 := pwr, 0xF2 := shf, 0xF4 := fan, 0xF3 := kbd),
      faults = fs, trace = [], klog = []\<rparr>"

text \<open>\<open>load_bytes addr bs rg\<close>: the register file \<open>rg\<close> with \<open>bs\<close> stored from \<open>addr\<close> on.\<close>

fun load_bytes :: "u8 \<Rightarrow> u8 list \<Rightarrow> (u8 \<Rightarrow> u8) \<Rightarrow> (u8 \<Rightarrow> u8)" where
  "load_bytes addr [] rg = rg"
| "load_bytes addr (b # bs) rg = load_bytes (addr + 1) bs (rg(addr := b))"

definition ascii :: "string \<Rightarrow> u8 list" where
  "ascii str = map of_char str"

text \<open>
  A controller holding the given firmware date and time bytes, and values for the locals
  of \<^verbatim>\<open>fw_release_date_show\<close> before \<^verbatim>\<open>sscanf\<close> runs.
\<close>

definition fw_ec :: "constants \<Rightarrow> u8 list \<Rightarrow> u8 list \<Rightarrow> errno option list \<Rightarrow> ec" where
  "fw_ec K rdate rtime fs =
     \<lparr>regs = load_bytes (MSI_EC_FW_DATE_ADDRESS K) rdate
               (load_bytes (MSI_EC_FW_TIME_ADDRESS K) rtime (\<lambda>_. 0)),
      faults = fs, trace = [], klog = []\<rparr>"

definition epoch :: fw_locals where
  "epoch = \<lparr>year = 1970, month = 1, day = 1, hour = 0, minute = 0, second = 0\<rparr>"

section \<open>Basic facts about the codec\<close>

lemma is_bit_set_iff: "is_bit_set index byte \<longleftrightarrow> bit byte (unat index)"
proof -
  have "(ucast (drop_bit (unat index) byte) :: 64 word) AND 1 =
        of_bool (bit byte (unat index))"
    by (rule bit_word_eqI) (auto simp: bit_simps)
  then show ?thesis by (simp add: is_bit_set_def)
qed

lemma bit_set_or_clear:
  "bit (set_or_clear data index v) j \<longleftrightarrow>
     (if j = unat index \<and> j < 8 then v else bit data j)"
  by (cases "j < 8") (auto simp: set_or_clear_def bit_simps dest: bit_imp_le_length)

lemma set_or_clear_eval [simp]:
  "set_or_clear data index True = data OR push_bit (unat index) 1"
  "set_or_clear data index False = data AND NOT (push_bit (unat index) 1)"
  by (rule bit_word_eqI; auto simp: set_or_clear_def bit_simps)+

lemma ec_read_Inr: "fst (ec_read addr s) = Inr b \<Longrightarrow> b = regs s addr"
  by (auto simp: ec_read_def Let_def split: option.splits)

lemma ec_write_bit_Inr:
  "fst (ec_write_bit addr index v s) = Inr u \<Longrightarrow>
     regs (snd (ec_write_bit addr index v s)) =
       (regs s)(addr := set_or_clear (regs s addr) index v)"
  by (auto simp: ec_write_bit_def ec_read_def ec_write_def Let_def split: option.splits)

section \<open>Read-modify-write of one bit\<close>

text \<open>
  C8.  For every address, every bit index from 0 to 7, every boolean \<open>v\<close> and every
  initial byte: when \<^verbatim>\<open>ec_write_bit\<close> succeeds, reading the register back and testing
  the bit with \<^verbatim>\<open>is_bit_set\<close> gives \<open>v\<close>, and every other bit of the byte reads as it
  did before the write.
\<close>

theorem write_bit_then_read_bit:
  assumes "index < 8"
    and "fst (ec_write_bit addr index v s) = Inr ()"
    and "fst (ec_read addr (snd (ec_write_bit addr index v s))) = Inr b"
  shows "is_bit_set index b = v \<and>
         (\<forall>j. j \<noteq> index \<longrightarrow> is_bit_set j b = is_bit_set j (regs s addr))"
proof -
  have b: "b = set_or_clear (regs s addr) index v"
    using ec_write_bit_Inr [OF assms(2)] ec_read_Inr [OF assms(3)] by simp
  have lt: "unat index < 8" using assms(1) by (simp add: word_less_nat_alt)
  show ?thesis
    using lt by (auto simp: b is_bit_set_iff bit_set_or_clear word_unat_eq_iff)
qed

theorem write_bit_then_read_bit_witness:
  "(3 :: u8) < 8 \<and>
   fst (ec_write_bit 0x2E 3 True (fresh_ec 0x40 [])) = Inr () \<and>
   fst (ec_read 0x2E (snd (ec_write_bit 0x2E 3 True (fresh_ec 0x40 [])))) = Inr 0x48 \<and>
   is_bit_set 3 0x48 = True \<and>
   (6 :: u8) \<noteq> 3 \<and>
   is_bit_set 6 0x48 = is_bit_set 6 (regs (fresh_ec 0x40 []) 0x2E)"
proof -
  have h1: "(3 :: u8) < 8" by simp
  have h2: "fst (ec_write_bit 0x2E 3 True (fresh_ec 0x40 [])) = Inr ()"
    by (simp add: ec_write_bit_def ec_read_def ec_write_def next_fault_def fresh_ec_def)
  have h3: "fst (ec_read 0x2E (snd (ec_write_bit 0x2E 3 True (fresh_ec 0x40 [])))) = Inr 0x48"
    by (simp add: ec_write_bit_def ec_read_def ec_write_def next_fault_def fresh_ec_def)
  have h4: "(6 :: u8) \<noteq> 3" by simp
  from write_bit_then_read_bit [OF h1 h2 h3] h1 h2 h3 h4 show ?thesis by blast
qed

lemma ec_read_ok:
  "next_fault s = None \<Longrightarrow>
     ec_read a s = (Inr (regs s a), s\<lparr>faults := tl (faults s), trace := trace s @ [EcRead a]\<rparr>)"
  by (simp add: ec_read_def)

lemma ec_read_fail:
  "next_fault s = Some e \<Longrightarrow>
     ec_read a s = (Inl e, s\<lparr>faults := tl (faults s), trace := trace s @ [EcRead a]\<rparr>)"
  by (simp add: ec_read_def)

section \<open>Reading the fan mode\<close>

text \<open>
  C9.  Whatever byte the fan-mode register holds, a successful read is reported as one
  of the four modes, decided in a fixed order: \<open>silent\<close> when the silent bit is set,
  whatever the other two bits are; otherwise \<open>advanced\<close> when the advanced bit is set;
  otherwise \<open>basic\<close> when the basic bit is set; otherwise \<open>auto\<close>.  No byte is
  reported as unknown or as an error.
\<close>

theorem fan_mode_show_priority:
  assumes "next_fault s = None"
  shows "fst (fan_mode_show K s) =
           Inr (sprintf_s
             (if bit (regs s (MSI_EC_FAN_MODE_ADDRESS K)) (unat (MSI_EC_FAN_MODE_SILENT_BIT K))
                then ''silent''
              else if bit (regs s (MSI_EC_FAN_MODE_ADDRESS K)) (unat (MSI_EC_FAN_MODE_ADVANCED_BIT K))
                then ''advanced''
              else if bit (regs s (MSI_EC_FAN_MODE_ADDRESS K)) (unat (MSI_EC_FAN_MODE_BASIC_BIT K))
                then ''basic''
              else ''auto''))"
  by (simp add: fan_mode_show_def ec_read_ok [OF assms] is_bit_set_iff)

theorem fan_mode_show_priority_witness:
  "next_fault (fresh_ec 0xFF []) = None \<and>
   fst (fan_mode_show sample_board (fresh_ec 0xFF [])) = Inr (sprintf_s ''silent'') \<and>
   next_fault (fresh_ec 0x40 []) = None \<and>
   fst (fan_mode_show sample_board (fresh_ec 0x40 [])) = Inr (sprintf_s ''basic'')"
proof -
  have h1: "next_fault (fresh_ec 0xFF []) = None" by (simp add: next_fault_def fresh_ec_def)
  have h2: "next_fault (fresh_ec 0x40 []) = None" by (simp add: next_fault_def fresh_ec_def)
  show ?thesis
    using fan_mode_show_priority [OF h1, of sample_board]
      fan_mode_show_priority [OF h2, of sample_board] h1 h2
    by (simp add: sample_board_def fresh_ec_def)
qed

section \<open>CPU fan speed as a percentage\<close>

lemma sdiv_nonneg: "0 \<le> a \<Longrightarrow> 0 < b \<Longrightarrow> a sdiv b = a div (b :: int)"
  by (simp add: signed_divide_int_def sgn_if)

lemma fmt_d_0: "0 \<le> n \<Longrightarrow> fmt_d 0 n = dec_digits (nat n)"
  by (simp add: fmt_d_def zero_pad_def)

text \<open>
  C7.  With calibration bounds \<open>0 \<le> MIN < MAX \<le> 255\<close> and a successful read of the raw
  byte: the result is 0 when the byte equals \<open>MIN\<close>, 100 when it equals \<open>MAX\<close>,
  \<open>100 * (raw - MIN) div (MAX - MIN)\<close> in between, and the failure \<^verbatim>\<open>-EINVAL\<close>, not a
  clamped value, for every byte below \<open>MIN\<close> or above \<open>MAX\<close>.
\<close>

theorem cpu_fan_speed_rescaling:
  assumes "0 \<le> MSI_EC_CPU_REALTIME_FAN_SPEED_BASE_MIN K"
    and "MSI_EC_CPU_REALTIME_FAN_SPEED_BASE_MIN K < MSI_EC_CPU_REALTIME_FAN_SPEED_BASE_MAX K"
    and "MSI_EC_CPU_REALTIME_FAN_SPEED_BASE_MAX K \<le> 255"
    and "next_fault s = None"
  shows "fst (cpu_realtime_fan_speed_show K s) =
     (let raw = uint (regs s (MSI_EC_CPU_REALTIME_FAN_SPEED_ADDRESS K));
          lo = MSI_EC_CPU_REALTIME_FAN_SPEED_BASE_MIN K;
          hi = MSI_EC_CPU_REALTIME_FAN_SPEED_BASE_MAX K
      in if raw < lo \<or> hi < raw then Inl EINVAL
         else if raw = lo then Inr (''0'' @ [newline])
         else if raw = hi then Inr (''100'' @ [newline])
         else Inr (dec_digits (nat (100 * (raw - lo) div (hi - lo))) @ [newline]))"
proof -
  define raw where "raw = uint (regs s (MSI_EC_CPU_REALTIME_FAN_SPEED_ADDRESS K))"
  define lo where "lo = MSI_EC_CPU_REALTIME_FAN_SPEED_BASE_MIN K"
  define hi where "hi = MSI_EC_CPU_REALTIME_FAN_SPEED_BASE_MAX K"
  have lohi: "lo < hi" using assms(2) by (simp add: lo_def hi_def)
  have d0: "dec_digits 0 = ''0''" by (simp add: dec_digits.simps digit_char_def)
  have d100: "dec_digits 100 = ''100''" by code_simp
  have run: "fst (cpu_realtime_fan_speed_show K s) =
      (if raw < lo \<or> hi < raw then Inl EINVAL
       else Inr (fmt_d 0 ((100 * (raw - lo)) sdiv (hi - lo)) @ [newline]))"
    by (simp add: cpu_realtime_fan_speed_show_def ec_read_ok [OF assms(4)] raw_def lo_def hi_def)
  have pct: "fmt_d 0 ((100 * (raw - lo)) sdiv (hi - lo)) =
             dec_digits (nat (100 * (raw - lo) div (hi - lo)))" if "lo \<le> raw" "raw \<le> hi"
  proof -
    have "0 \<le> 100 * (raw - lo)" using that by simp
    then have "(100 * (raw - lo)) sdiv (hi - lo) = 100 * (raw - lo) div (hi - lo)"
      using lohi by (simp add: sdiv_nonneg)
    moreover have "0 \<le> 100 * (raw - lo) div (hi - lo)"
      using that lohi by (simp add: pos_imp_zdiv_nonneg_iff)
    ultimately show ?thesis by (simp add: fmt_d_0)
  qed
  have at_hi: "100 * (hi - lo) div (hi - lo) = 100"
  proof -
    have "hi - lo \<noteq> 0" using lohi by simp
    then show ?thesis by (rule nonzero_mult_div_cancel_right)
  qed
  have "fst (cpu_realtime_fan_speed_show K s) =
      (if raw < lo \<or> hi < raw then Inl EINVAL
       else if raw = lo then Inr (''0'' @ [newline])
       else if raw = hi then Inr (''100'' @ [newline])
       else Inr (dec_digits (nat (100 * (raw - lo) div (hi - lo))) @ [newline]))"
  proof (cases "raw < lo \<or> hi < raw")
    case True
    then show ?thesis by (simp add: run)
  next
    case False
    then have in_range: "lo \<le> raw" "raw \<le> hi" by auto
    note p = pct [OF in_range]
    show ?thesis
    proof (cases "raw = lo")
      case True
      with p have "fmt_d 0 ((100 * (raw - lo)) sdiv (hi - lo)) = ''0''" by (simp add: d0)
      with True False show ?thesis by (simp only: run if_True if_False refl)
    next
      case nlo: False
      show ?thesis
      proof (cases "raw = hi")
        case True
        have "fmt_d 0 ((100 * (raw - lo)) sdiv (hi - lo)) = ''100''"
          unfolding p unfolding True at_hi by (simp add: d100)
        with nlo True False show ?thesis by (simp only: run if_True if_False refl)
      next
        case nhi: False
        with nlo False p show ?thesis by (simp only: run if_True if_False refl)
      qed
    qed
  qed
  then show ?thesis by (simp add: raw_def lo_def hi_def Let_def)
qed

theorem cpu_fan_speed_rescaling_witness:
  "fst (cpu_realtime_fan_speed_show sample_board (fresh_ec 0x19 [])) = Inr (''0'' @ [newline]) \<and>
   fst (cpu_realtime_fan_speed_show sample_board (fresh_ec 0x37 [])) = Inr (''100'' @ [newline]) \<and>
   fst (cpu_realtime_fan_speed_show sample_board (fresh_ec 0x30 [])) = Inr (''76'' @ [newline]) \<and>
   fst (cpu_realtime_fan_speed_show sample_board (fresh_ec 0x38 [])) = Inl EINVAL \<and>
   fst (cpu_realtime_fan_speed_show sample_board (fresh_ec 0x18 [])) = Inl EINVAL"
proof -
  have k: "0 \<le> MSI_EC_CPU_REALTIME_FAN_SPEED_BASE_MIN sample_board"
    "MSI_EC_CPU_REALTIME_FAN_SPEED_BASE_MIN sample_board < MSI_EC_CPU_REALTIME_FAN_SPEED_BASE_MAX sample_board"
    "MSI_EC_CPU_REALTIME_FAN_SPEED_BASE_MAX sample_board \<le> 255"
    by (simp_all add: sample_board_def)
  have h: "\<And>b. next_fault (fresh_ec b []) = None" by (simp add: next_fault_def fresh_ec_def)
  have d76: "dec_digits 76 = ''76''" by code_simp
  have r: "\<And>b. regs (fresh_ec b []) (MSI_EC_CPU_REALTIME_FAN_SPEED_ADDRESS sample_board) = b"
    by (simp add: fresh_ec_def)
  have c: "MSI_EC_CPU_REALTIME_FAN_SPEED_BASE_MIN sample_board = 25"
    "MSI_EC_CPU_REALTIME_FAN_SPEED_BASE_MAX sample_board = 55"
    by (simp_all add: sample_board_def)
  show ?thesis
    using cpu_fan_speed_rescaling [OF k h, of "0x19"] cpu_fan_speed_rescaling [OF k h, of "0x37"]
      cpu_fan_speed_rescaling [OF k h, of "0x30"] cpu_fan_speed_rescaling [OF k h, of "0x38"]
      cpu_fan_speed_rescaling [OF k h, of "0x18"]
    by (simp add: r c d76)
qed

section \<open>Writing the fan mode\<close>

lemma ec_write_bit_trace:
  "trace (snd (ec_write_bit a i v s)) =
     trace s @ (if next_fault s = None then [EcRead a, EcWrite a (set_or_clear (regs s a) i v)]
                else [EcRead a])"
  by (auto simp: ec_write_bit_def ec_read_def ec_write_def Let_def split: option.splits)

lemma ec_write_bit_Inl:
  "fst (ec_write_bit a i v s) = Inl e \<Longrightarrow> regs (snd (ec_write_bit a i v s)) = regs s"
  by (auto simp: ec_write_bit_def ec_read_def ec_write_def Let_def split: option.splits)

lemma streq_modes:
  "streq buf ''silent'' \<Longrightarrow> \<not> streq buf ''advanced'' \<and> \<not> streq buf ''basic'' \<and> \<not> streq buf ''auto''"
  "streq buf ''advanced'' \<Longrightarrow> \<not> streq buf ''basic'' \<and> \<not> streq buf ''auto''"
  "streq buf ''basic'' \<Longrightarrow> \<not> streq buf ''auto''"
  by (auto simp: streq_def)

lemma fan_mode_store_valid:
  assumes "streq buf ''auto'' \<or> streq buf ''silent'' \<or> streq buf ''basic'' \<or>
           streq buf ''advanced''"
  shows "fan_mode_store K buf count s =
     (case ec_write_bit (MSI_EC_FAN_MODE_ADDRESS K) (MSI_EC_FAN_MODE_BASIC_BIT K)
             (streq buf ''basic'') s of
        (Inl e, s1) \<Rightarrow> (Inl e, s1)
      | (Inr _, s1) \<Rightarrow>
          (case ec_write_bit (MSI_EC_FAN_MODE_ADDRESS K) (MSI_EC_FAN_MODE_ADVANCED_BIT K)
                  (streq buf ''advanced'') s1 of
             (Inl e, s2) \<Rightarrow> (Inl e, s2)
           | (Inr _, s2) \<Rightarrow>
               (case ec_write_bit (MSI_EC_FAN_MODE_ADDRESS K) (MSI_EC_FAN_MODE_SILENT_BIT K)
                       (streq buf ''silent'') s2 of
                  (Inl e, s3) \<Rightarrow> (Inl e, s3)
                | (Inr _, s3) \<Rightarrow> (Inr count, s3))))"
proof -
  have "\<not> (\<not> streq buf ''auto'' \<and> \<not> streq buf ''basic'' \<and> \<not> streq buf ''advanced'' \<and>
           \<not> streq buf ''silent'')"
    using assms by blast
  then show ?thesis
    unfolding fan_mode_store_def Let_def by (rule if_not_P)
qed

text \<open>
  C10.  With the three flag bits pairwise different and below 8, and \<open>buf\<close> one of
  the four mode names: when \<^verbatim>\<open>fan_mode_store\<close> succeeds, the silent, advanced and basic
  bits of the fan-mode byte are set exactly when \<open>buf\<close> names that mode, so at most
  one of them is set and none for \<open>auto\<close>, and every other bit of the byte is as it
  was.  When one of the three read-modify-writes fails, the operation returns that
  error and leaves the controller as the failed read-modify-write left it: no later
  transport call is issued.
\<close>

theorem fan_mode_store_exclusive:
  fixes K :: constants and buf :: string and count :: nat and s :: ec
  defines "a \<equiv> MSI_EC_FAN_MODE_ADDRESS K"
  defines "r1 \<equiv> ec_write_bit a (MSI_EC_FAN_MODE_BASIC_BIT K) (streq buf ''basic'') s"
  defines "r2 \<equiv> ec_write_bit a (MSI_EC_FAN_MODE_ADVANCED_BIT K) (streq buf ''advanced'') (snd r1)"
  defines "r3 \<equiv> ec_write_bit a (MSI_EC_FAN_MODE_SILENT_BIT K) (streq buf ''silent'') (snd r2)"
  defines "b \<equiv> regs s a"
  defines "b' \<equiv> regs (snd (fan_mode_store K buf count s)) a"
  assumes bits: "MSI_EC_FAN_MODE_BASIC_BIT K < 8" "MSI_EC_FAN_MODE_ADVANCED_BIT K < 8"
      "MSI_EC_FAN_MODE_SILENT_BIT K < 8"
      "distinct [MSI_EC_FAN_MODE_BASIC_BIT K, MSI_EC_FAN_MODE_ADVANCED_BIT K,
                 MSI_EC_FAN_MODE_SILENT_BIT K]"
    and valid: "streq buf ''auto'' \<or> streq buf ''silent'' \<or> streq buf ''basic'' \<or>
                streq buf ''advanced''"
  shows "(fst (fan_mode_store K buf count s) = Inr n \<longrightarrow>
            n = count \<and>
            (bit b' (unat (MSI_EC_FAN_MODE_SILENT_BIT K)) \<longleftrightarrow> streq buf ''silent'') \<and>
            (bit b' (unat (MSI_EC_FAN_MODE_ADVANCED_BIT K)) \<longleftrightarrow> streq buf ''advanced'') \<and>
            (bit b' (unat (MSI_EC_FAN_MODE_BASIC_BIT K)) \<longleftrightarrow> streq buf ''basic'') \<and>
            \<not> (bit b' (unat (MSI_EC_FAN_MODE_SILENT_BIT K)) \<and>
               bit b' (unat (MSI_EC_FAN_MODE_ADVANCED_BIT K))) \<and>
            \<not> (bit b' (unat (MSI_EC_FAN_MODE_SILENT_BIT K)) \<and>
               bit b' (unat (MSI_EC_FAN_MODE_BASIC_BIT K))) \<and>
            \<not> (bit b' (unat (MSI_EC_FAN_MODE_ADVANCED_BIT K)) \<and>
               bit b' (unat (MSI_EC_FAN_MODE_BASIC_BIT K))) \<and>
            (streq buf ''auto'' \<longrightarrow>
               \<not> bit b' (unat (MSI_EC_FAN_MODE_SILENT_BIT K)) \<and>
               \<not> bit b' (unat (MSI_EC_FAN_MODE_ADVANCED_BIT K)) \<and>
               \<not> bit b' (unat (MSI_EC_FAN_MODE_BASIC_BIT K))) \<and>
            (\<forall>j. j \<noteq> unat (MSI_EC_FAN_MODE_SILENT_BIT K) \<and>
                 j \<noteq> unat (MSI_EC_FAN_MODE_ADVANCED_BIT K) \<and>
                 j \<noteq> unat (MSI_EC_FAN_MODE_BASIC_BIT K) \<longrightarrow> bit b' j = bit b j)) \<and>
         (\<forall>e. fst r1 = Inl e \<longrightarrow>
            fan_mode_store K buf count s = (Inl e, snd r1) \<and>
            length (trace (snd (fan_mode_store K buf count s))) \<le> length (trace s) + 2) \<and>
         (\<forall>e. fst r1 = Inr () \<and> fst r2 = Inl e \<longrightarrow>
            fan_mode_store K buf count s = (Inl e, snd r2) \<and>
            length (trace (snd (fan_mode_store K buf count s))) \<le> length (trace s) + 4) \<and>
         (\<forall>e. fst r1 = Inr () \<and> fst r2 = Inr () \<and> fst r3 = Inl e \<longrightarrow>
            fan_mode_store K buf count s = (Inl e, snd r3))"
proof -
  have nv: "\<not> (\<not> streq buf ''auto'' \<and> \<not> streq buf ''basic'' \<and> \<not> streq buf ''advanced'' \<and>
              \<not> streq buf ''silent'')"
    using valid by blast
  have run: "fan_mode_store K buf count s =
      (case fst r1 of Inl e \<Rightarrow> (Inl e, snd r1)
       | Inr _ \<Rightarrow> (case fst r2 of Inl e \<Rightarrow> (Inl e, snd r2)
          | Inr _ \<Rightarrow> (case fst r3 of Inl e \<Rightarrow> (Inl e, snd r3) | Inr _ \<Rightarrow> (Inr count, snd r3))))"
  proof -
    obtain x1 s1 where e1: "r1 = (x1, s1)" by (cases r1)
    obtain x2 s2 where e2: "r2 = (x2, s2)" by (cases r2)
    obtain x3 s3 where e3: "r3 = (x3, s3)" by (cases r3)
    have "fan_mode_store K buf count s =
      (case r1 of (Inl e, s1) \<Rightarrow> (Inl e, s1)
       | (Inr _, s1) \<Rightarrow>
           (case ec_write_bit a (MSI_EC_FAN_MODE_ADVANCED_BIT K) (streq buf ''advanced'') s1 of
              (Inl e, s2) \<Rightarrow> (Inl e, s2)
            | (Inr _, s2) \<Rightarrow>
                (case ec_write_bit a (MSI_EC_FAN_MODE_SILENT_BIT K) (streq buf ''silent'') s2 of
                   (Inl e, s3) \<Rightarrow> (Inl e, s3)
                 | (Inr _, s3) \<Rightarrow> (Inr count, s3))))"
      unfolding r1_def a_def by (rule fan_mode_store_valid [OF valid])
    also have "\<dots> = (case x1 of Inl e \<Rightarrow> (Inl e, s1)
       | Inr _ \<Rightarrow> (case x2 of Inl e \<Rightarrow> (Inl e, s2)
          | Inr _ \<Rightarrow> (case x3 of Inl e \<Rightarrow> (Inl e, s3) | Inr _ \<Rightarrow> (Inr count, s3))))"
      using e2 e3 by (simp add: e1 r2_def r3_def split: sum.splits)
    finally show ?thesis by (simp add: e1 e2 e3 split: sum.splits)
  qed
  have t1: "length (trace (snd r1)) \<le> length (trace s) + 2"
    by (simp add: r1_def ec_write_bit_trace)
  have t2: "length (trace (snd r2)) \<le> length (trace (snd r1)) + 2"
    by (simp add: r2_def ec_write_bit_trace)
  have fail1: "\<forall>e. fst r1 = Inl e \<longrightarrow>
            fan_mode_store K buf count s = (Inl e, snd r1) \<and>
            length (trace (snd (fan_mode_store K buf count s))) \<le> length (trace s) + 2"
    using t1 by (simp add: run)
  have fail2: "\<forall>e. fst r1 = Inr () \<and> fst r2 = Inl e \<longrightarrow>
            fan_mode_store K buf count s = (Inl e, snd r2) \<and>
            length (trace (snd (fan_mode_store K buf count s))) \<le> length (trace s) + 4"
    using t1 t2 by (simp add: run)
  have fail3: "\<forall>e. fst r1 = Inr () \<and> fst r2 = Inr () \<and> fst r3 = Inl e \<longrightarrow>
            fan_mode_store K buf count s = (Inl e, snd r3)"
    by (simp add: run)
  show ?thesis
  proof (rule conjI [OF _ conjI [OF fail1 conjI [OF fail2 fail3]]], rule impI)
    assume ok: "fst (fan_mode_store K buf count s) = Inr n"
    from ok have s1: "fst r1 = Inr ()" and s2: "fst r2 = Inr ()" and s3: "fst r3 = Inr ()"
      and n: "n = count" and fin: "snd (fan_mode_store K buf count s) = snd r3"
      by (auto simp: run split: sum.splits)
    have b1: "regs (snd r1) a = set_or_clear b (MSI_EC_FAN_MODE_BASIC_BIT K) (streq buf ''basic'')"
      using ec_write_bit_Inr [OF s1 [unfolded r1_def]] by (simp add: r1_def b_def)
    have b2: "regs (snd r2) a =
        set_or_clear (regs (snd r1) a) (MSI_EC_FAN_MODE_ADVANCED_BIT K) (streq buf ''advanced'')"
      using ec_write_bit_Inr [OF s2 [unfolded r2_def]] by (simp add: r2_def)
    have b3: "b' =
        set_or_clear (regs (snd r2) a) (MSI_EC_FAN_MODE_SILENT_BIT K) (streq buf ''silent'')"
      using ec_write_bit_Inr [OF s3 [unfolded r3_def]] by (simp add: r3_def b'_def fin)
    have lt: "unat (MSI_EC_FAN_MODE_BASIC_BIT K) < 8" "unat (MSI_EC_FAN_MODE_ADVANCED_BIT K) < 8"
      "unat (MSI_EC_FAN_MODE_SILENT_BIT K) < 8"
      using bits(1-3) by (simp_all add: word_less_nat_alt)
    have ne: "unat (MSI_EC_FAN_MODE_BASIC_BIT K) \<noteq> unat (MSI_EC_FAN_MODE_ADVANCED_BIT K)"
      "unat (MSI_EC_FAN_MODE_BASIC_BIT K) \<noteq> unat (MSI_EC_FAN_MODE_SILENT_BIT K)"
      "unat (MSI_EC_FAN_MODE_ADVANCED_BIT K) \<noteq> unat (MSI_EC_FAN_MODE_SILENT_BIT K)"
      using bits(4) by (simp_all add: word_unat_eq_iff)
    have bitb': "bit b' j \<longleftrightarrow>
        (if j = unat (MSI_EC_FAN_MODE_SILENT_BIT K) then streq buf ''silent''
         else if j = unat (MSI_EC_FAN_MODE_ADVANCED_BIT K) then streq buf ''advanced''
         else if j = unat (MSI_EC_FAN_MODE_BASIC_BIT K) then streq buf ''basic''
         else bit b j)" for j
      using lt by (simp add: b3 b2 b1 bit_set_or_clear)
    show "n = count \<and>
            (bit b' (unat (MSI_EC_FAN_MODE_SILENT_BIT K)) \<longleftrightarrow> streq buf ''silent'') \<and>
            (bit b' (unat (MSI_EC_FAN_MODE_ADVANCED_BIT K)) \<longleftrightarrow> streq buf ''advanced'') \<and>
            (bit b' (unat (MSI_EC_FAN_MODE_BASIC_BIT K)) \<longleftrightarrow> streq buf ''basic'') \<and>
            \<not> (bit b' (unat (MSI_EC_FAN_MODE_SILENT_BIT K)) \<and>
               bit b' (unat (MSI_EC_FAN_MODE_ADVANCED_BIT K))) \<and>
            \<not> (bit b' (unat (MSI_EC_FAN_MODE_SILENT_BIT K)) \<and>
               bit b' (unat (MSI_EC_FAN_MODE_BASIC_BIT K))) \<and>
            \<not> (bit b' (unat (MSI_EC_FAN_MODE_ADVANCED_BIT K)) \<and>
               bit b' (unat (MSI_EC_FAN_MODE_BASIC_BIT K))) \<and>
            (streq buf ''auto'' \<longrightarrow>
               \<not> bit b' (unat (MSI_EC_FAN_MODE_SILENT_BIT K)) \<and>
               \<not> bit b' (unat (MSI_EC_FAN_MODE_ADVANCED_BIT K)) \<and>
               \<not> bit b' (unat (MSI_EC_FAN_MODE_BASIC_BIT K))) \<and>
            (\<forall>j. j \<noteq> unat (MSI_EC_FAN_MODE_SILENT_BIT K) \<and>
                 j \<noteq> unat (MSI_EC_FAN_MODE_ADVANCED_BIT K) \<and>
                 j \<noteq> unat (MSI_EC_FAN_MODE_BASIC_BIT K) \<longrightarrow> bit b' j = bit b j)"
      using n ne streq_modes [of buf] by (auto simp: bitb')
  qed
qed

lemmas ec_eval = ec_write_bit_def ec_read_def ec_write_def next_fault_def fresh_ec_def Let_def

theorem fan_mode_store_exclusive_witness:
  "MSI_EC_FAN_MODE_BASIC_BIT sample_board < 8 \<and>
   MSI_EC_FAN_MODE_ADVANCED_BIT sample_board < 8 \<and>
   MSI_EC_FAN_MODE_SILENT_BIT sample_board < 8 \<and>
   distinct [MSI_EC_FAN_MODE_BASIC_BIT sample_board, MSI_EC_FAN_MODE_ADVANCED_BIT sample_board,
             MSI_EC_FAN_MODE_SILENT_BIT sample_board] \<and>
   streq ''basic'' ''basic'' \<and>
   fst (fan_mode_store sample_board ''basic'' 5 (fresh_ec 0xFF [])) = Inr 5 \<and>
   regs (snd (fan_mode_store sample_board ''basic'' 5 (fresh_ec 0xFF []))) 0xF4 = 0x6F \<and>
   bit (regs (snd (fan_mode_store sample_board ''basic'' 5 (fresh_ec 0xFF [])))
          (MSI_EC_FAN_MODE_ADDRESS sample_board))
       (unat (MSI_EC_FAN_MODE_BASIC_BIT sample_board)) \<and>
   \<not> bit (regs (snd (fan_mode_store sample_board ''basic'' 5 (fresh_ec 0xFF [])))
          (MSI_EC_FAN_MODE_ADDRESS sample_board))
       (unat (MSI_EC_FAN_MODE_ADVANCED_BIT sample_board)) \<and>
   \<not> bit (regs (snd (fan_mode_store sample_board ''basic'' 5 (fresh_ec 0xFF [])))
          (MSI_EC_FAN_MODE_ADDRESS sample_board))
       (unat (MSI_EC_FAN_MODE_SILENT_BIT sample_board)) \<and>
   fan_mode_store sample_board ''basic'' 5 (fresh_ec 0xFF [None, None, Some EIO]) =
     (Inl EIO, \<lparr>regs = (\<lambda>_. 0xFF), faults = [],
                trace = [EcRead 0xF4, EcWrite 0xF4 0xFF, EcRead 0xF4], klog = []\<rparr>)"
proof -
  have h: "MSI_EC_FAN_MODE_BASIC_BIT sample_board < 8"
    "MSI_EC_FAN_MODE_ADVANCED_BIT sample_board < 8"
    "MSI_EC_FAN_MODE_SILENT_BIT sample_board < 8"
    "distinct [MSI_EC_FAN_MODE_BASIC_BIT sample_board, MSI_EC_FAN_MODE_ADVANCED_BIT sample_board,
               MSI_EC_FAN_MODE_SILENT_BIT sample_board]"
    by (simp_all add: sample_board_def)
  have v: "streq ''basic'' ''basic''" by (simp add: streq_def)
  have v': "streq ''basic'' ''auto'' \<or> streq ''basic'' ''silent'' \<or> streq ''basic'' ''basic'' \<or>
            streq ''basic'' ''advanced''"
    using v by simp
  have run: "fst (fan_mode_store sample_board ''basic'' 5 (fresh_ec 0xFF [])) = Inr 5"
    by (simp add: fan_mode_store_def streq_def sample_board_def ec_eval)
  have val: "regs (snd (fan_mode_store sample_board ''basic'' 5 (fresh_ec 0xFF []))) 0xF4 = 0x6F"
    by (simp add: fan_mode_store_def streq_def sample_board_def ec_eval)
  have fl: "fan_mode_store sample_board ''basic'' 5 (fresh_ec 0xFF [None, None, Some EIO]) =
     (Inl EIO, \<lparr>regs = (\<lambda>_. 0xFF), faults = [],
                trace = [EcRead 0xF4, EcWrite 0xF4 0xFF, EcRead 0xF4], klog = []\<rparr>)"
    by (simp add: fan_mode_store_def streq_def sample_board_def ec_eval fun_eq_iff)
  note t = fan_mode_store_exclusive [OF h v', where count = 5 and s = "fresh_ec 0xFF []" and n = 5]
  from t run have
    "bit (regs (snd (fan_mode_store sample_board ''basic'' 5 (fresh_ec 0xFF [])))
          (MSI_EC_FAN_MODE_ADDRESS sample_board))
       (unat (MSI_EC_FAN_MODE_BASIC_BIT sample_board)) \<and>
     \<not> bit (regs (snd (fan_mode_store sample_board ''basic'' 5 (fresh_ec 0xFF [])))
          (MSI_EC_FAN_MODE_ADDRESS sample_board))
       (unat (MSI_EC_FAN_MODE_ADVANCED_BIT sample_board)) \<and>
     \<not> bit (regs (snd (fan_mode_store sample_board ''basic'' 5 (fresh_ec 0xFF [])))
          (MSI_EC_FAN_MODE_ADDRESS sample_board))
       (unat (MSI_EC_FAN_MODE_SILENT_BIT sample_board))"
    using v by (simp add: streq_def)
  with h v run val fl show ?thesis by blast
qed

section \<open>Classifying the current preset\<close>



lemma ec_read_regs [simp]: "regs (snd (ec_read a s)) = regs s"
  by (simp add: ec_read_def Let_def split: option.splits)

lemma ec_read_faults [simp]: "faults (snd (ec_read a s)) = tl (faults s)"
  by (simp add: ec_read_def Let_def split: option.splits)

lemma ec_read_trace [simp]: "trace (snd (ec_read a s)) = trace s @ [EcRead a]"
  by (simp add: ec_read_def Let_def split: option.splits)

lemma ec_read_fst: "fst (ec_read a s) = (case next_fault s of None \<Rightarrow> Inr (regs s a) | Some e \<Rightarrow> Inl e)"
  by (simp add: ec_read_def Let_def split: option.splits)

text \<open>The inner loop, one column at a time, in terms of the outcome of its read.\<close>

lemma preset_match_cols_Cons:
  "preset_match_cols K v (c # cs) s =
     (case next_fault s of
        Some e \<Rightarrow> (False, (snd (ec_read (MSI_EC_PRESET_MEMORY_TABLE K ! c) s))
                     \<lparr>klog := klog s @ [Log_read_failed (MSI_EC_PRESET_MEMORY_TABLE K ! c) v e]\<rparr>)
      | None \<Rightarrow>
          if spec_column_matches K (regs s) v c
          then preset_match_cols K v cs (snd (ec_read (MSI_EC_PRESET_MEMORY_TABLE K ! c) s))
          else (False, snd (ec_read (MSI_EC_PRESET_MEMORY_TABLE K ! c) s)))"
  by (simp add: ec_read_def spec_column_matches_def Let_def split: option.splits)

lemma preset_match_cols_regs [simp]:
  "regs (snd (preset_match_cols K v cs s)) = regs s"
  by (induction cs arbitrary: s)
     (simp_all add: preset_match_cols_Cons split: option.splits del: preset_match_cols.simps(2))

lemma preset_match_cols_sound:
  "fst (preset_match_cols K v cs s) \<Longrightarrow> list_all (spec_column_matches K (regs s) v) cs"
proof (induction cs arbitrary: s)
  case Nil
  then show ?case by simp
next
  case (Cons c cs)
  from Cons.prems have nf: "next_fault s = None" and col: "spec_column_matches K (regs s) v c"
    and rest: "fst (preset_match_cols K v cs (snd (ec_read (MSI_EC_PRESET_MEMORY_TABLE K ! c) s)))"
    by (auto simp: preset_match_cols_Cons split: option.splits if_splits
        simp del: preset_match_cols.simps(2))
  from Cons.IH [OF rest] col show ?case by simp
qed


text \<open>Transport calls of one match attempt: after a failed read none follows.\<close>

lemma preset_match_cols_calls:
  "\<exists>k. length (trace (snd (preset_match_cols K v cs s))) = length (trace s) + k \<and>
       (fst (preset_match_cols K v cs s) \<longrightarrow> list_all (\<lambda>f. f = None) (take k (faults s)))"
proof (induction cs arbitrary: s)
  case Nil
  show ?case by simp
next
  case (Cons c cs)
  let ?s1 = "snd (ec_read (MSI_EC_PRESET_MEMORY_TABLE K ! c) s)"
  from Cons.IH [of ?s1] obtain k where
    k: "length (trace (snd (preset_match_cols K v cs ?s1))) = length (trace ?s1) + k"
       "fst (preset_match_cols K v cs ?s1) \<longrightarrow> list_all (\<lambda>f. f = None) (take k (faults ?s1))"
    by blast
  show ?case
  proof (cases "next_fault s")
    case None
    then have hd_ok: "list_all (\<lambda>f. f = None) (take (Suc k) (faults s)) =
                      list_all (\<lambda>f. f = None) (take k (tl (faults s)))"
      by (cases "faults s") (simp_all add: next_fault_def)
    show ?thesis
    proof (cases "spec_column_matches K (regs s) v c")
      case True
      with None k hd_ok show ?thesis
        by (intro exI [of _ "Suc k"])
           (simp add: preset_match_cols_Cons del: preset_match_cols.simps(2))
    next
      case False
      with None show ?thesis
        by (intro exI [of _ 1]) (simp add: preset_match_cols_Cons del: preset_match_cols.simps(2))
    qed
  next
    case (Some e)
    then show ?thesis
      by (intro exI [of _ 1]) (simp add: preset_match_cols_Cons del: preset_match_cols.simps(2))
  qed
qed

lemma preset_match_cols_failed_read:
  assumes "Some e \<in> set (take (length (trace (snd (preset_match_cols K v cs s))) - length (trace s))
                           (faults s))"
  shows "\<not> fst (preset_match_cols K v cs s)"
proof
  assume m: "fst (preset_match_cols K v cs s)"
  from preset_match_cols_calls [of K v cs s] obtain k where
    k: "length (trace (snd (preset_match_cols K v cs s))) = length (trace s) + k"
       "fst (preset_match_cols K v cs s) \<longrightarrow> list_all (\<lambda>f. f = None) (take k (faults s))"
    by blast
  from k(1) have "length (trace (snd (preset_match_cols K v cs s))) - length (trace s) = k" by simp
  with assms k(2) m show False by (auto simp: list_all_iff)
qed

lemma preset_show_rows_named:
  "\<exists>name. fst (preset_show_rows K vs s) = Inr (sprintf_s name) \<and>
     (name = ''super_battery'' \<or> name = ''silent'' \<or> name = ''balanced'' \<or>
      name = ''high_performance'' \<or> name = ''custom'')"
proof (induction vs arbitrary: s)
  case Nil
  show ?case by (intro exI [of _ "''custom''"]) simp
next
  case (Cons v vs)
  show ?case
  proof (cases "fst (preset_match_cols K v (preset_columns K) s) \<and> preset_name K v \<noteq> None")
    case True
    then obtain name where n: "preset_name K v = Some name" by auto
    then have "name = ''super_battery'' \<or> name = ''silent'' \<or> name = ''balanced'' \<or>
      name = ''high_performance''"
      by (auto simp: preset_name_def split: if_splits)
    with True n show ?thesis by (auto simp: case_prod_beta)
  next
    case False
    then have "preset_show_rows K (v # vs) s =
               preset_show_rows K vs (snd (preset_match_cols K v (preset_columns K) s))"
      by (auto simp: case_prod_beta)
    with Cons.IH show ?thesis by simp
  qed
qed

lemma preset_show_rows_custom:
  "\<forall>v \<in> set vs. \<not> spec_row_matches K (regs s) v \<Longrightarrow>
     fst (preset_show_rows K vs s) = Inr (sprintf_s ''custom'')"
proof (induction vs arbitrary: s)
  case Nil
  show ?case by simp
next
  case (Cons v vs)
  have "\<not> fst (preset_match_cols K v (preset_columns K) s)"
    using Cons.prems preset_match_cols_sound [of K v "preset_columns K" s]
    by (auto simp: spec_row_matches_def)
  then have "preset_show_rows K (v # vs) s =
             preset_show_rows K vs (snd (preset_match_cols K v (preset_columns K) s))"
    by (simp add: case_prod_beta)
  moreover have "\<forall>u \<in> set vs. \<not> spec_row_matches K
                   (regs (snd (preset_match_cols K v (preset_columns K) s))) u"
    using Cons.prems by simp
  ultimately show ?case using Cons.IH by simp
qed

text \<open>
  C3.  \<^verbatim>\<open>preset_show\<close> never returns a failure: for every register state and every
  schedule of transport outcomes its result is one of the four preset names or
  \<open>custom\<close>.  When a read fails during the match attempt of row \<open>v\<close>, that row counts as
  not matching and the classification goes on with the rows after it.  When no row of the
  table agrees with the registers, the result is \<open>custom\<close>, whatever the reads do.
\<close>

theorem preset_show_never_fails:
  "(\<exists>name. fst (preset_show K s) = Inr (sprintf_s name) \<and>
      (name = ''super_battery'' \<or> name = ''silent'' \<or> name = ''balanced'' \<or>
       name = ''high_performance'' \<or> name = ''custom'')) \<and>
   ((\<exists>e. Some e \<in> set (take (length (issued s (snd (preset_match_cols K v (preset_columns K) s))))
                           (faults s))) \<longrightarrow>
      \<not> fst (preset_match_cols K v (preset_columns K) s) \<and>
      preset_show_rows K (v # vs) s =
        preset_show_rows K vs (snd (preset_match_cols K v (preset_columns K) s))) \<and>
   ((\<forall>v < length (MSI_EC_PRESET_VALUE_TABLE K). \<not> spec_row_matches K (regs s) v) \<longrightarrow>
      fst (preset_show K s) = Inr (sprintf_s ''custom''))"
proof (intro conjI impI)
  show "\<exists>name. fst (preset_show K s) = Inr (sprintf_s name) \<and>
      (name = ''super_battery'' \<or> name = ''silent'' \<or> name = ''balanced'' \<or>
       name = ''high_performance'' \<or> name = ''custom'')"
    unfolding preset_show_def by (rule preset_show_rows_named)
next
  assume "\<exists>e. Some e \<in> set (take (length (issued s (snd (preset_match_cols K v (preset_columns K) s))))
                           (faults s))"
  then obtain e where "Some e \<in> set (take (length (trace (snd (preset_match_cols K v (preset_columns K) s))) - length (trace s)) (faults s))"
    by (auto simp: issued_def)
  then show nm: "\<not> fst (preset_match_cols K v (preset_columns K) s)"
    by (rule preset_match_cols_failed_read)
  then show "preset_show_rows K (v # vs) s =
        preset_show_rows K vs (snd (preset_match_cols K v (preset_columns K) s))"
    by (simp add: case_prod_beta)
next
  assume "\<forall>v < length (MSI_EC_PRESET_VALUE_TABLE K). \<not> spec_row_matches K (regs s) v"
  then show "fst (preset_show K s) = Inr (sprintf_s ''custom'')"
    unfolding preset_show_def by (intro preset_show_rows_custom) simp
qed

theorem preset_show_never_fails_witness:
  "fst (preset_show sample_board (sample_ec 0xC2 0xC2 0 0 [None, Some EIO])) =
     Inr (sprintf_s ''custom'') \<and>
   Some EIO \<in> set (take (length (issued (sample_ec 0xC2 0xC2 0 0 [None, Some EIO])
                     (snd (preset_match_cols sample_board 0 (preset_columns sample_board)
                             (sample_ec 0xC2 0xC2 0 0 [None, Some EIO])))))
                   (faults (sample_ec 0xC2 0xC2 0 0 [None, Some EIO]))) \<and>
   \<not> fst (preset_match_cols sample_board 0 (preset_columns sample_board)
            (sample_ec 0xC2 0xC2 0 0 [None, Some EIO])) \<and>
   preset_show_rows sample_board [0, 1, 2, 3] (sample_ec 0xC2 0xC2 0 0 [None, Some EIO]) =
     preset_show_rows sample_board [1, 2, 3]
       (snd (preset_match_cols sample_board 0 (preset_columns sample_board)
               (sample_ec 0xC2 0xC2 0 0 [None, Some EIO]))) \<and>
   fst (preset_show sample_board (sample_ec 0xC2 0xC2 0 0 [])) = Inr (sprintf_s ''super_battery'') \<and>
   fst (preset_show sample_board (fresh_ec 0 [])) = Inr (sprintf_s ''custom'')"
proof -
  let ?s = "sample_ec 0xC2 0xC2 0 0 [None, Some EIO]"
  have a: "fst (preset_show sample_board ?s) = Inr (sprintf_s ''custom'')"
    by code_simp
  have b: "\<exists>e. Some e \<in> set (take (length (issued ?s
                     (snd (preset_match_cols sample_board 0 (preset_columns sample_board) ?s))))
                   (faults ?s))"
    by (rule exI [of _ EIO]) code_simp
  have b': "Some EIO \<in> set (take (length (issued ?s
                     (snd (preset_match_cols sample_board 0 (preset_columns sample_board) ?s))))
                   (faults ?s))"
    by code_simp
  have c: "\<forall>v < length (MSI_EC_PRESET_VALUE_TABLE sample_board).
        \<not> spec_row_matches sample_board (regs (fresh_ec 0 [])) v"
  proof -
    have "list_all (\<lambda>v. \<not> spec_row_matches sample_board (regs (fresh_ec 0 [])) v)
            [0 ..< length (MSI_EC_PRESET_VALUE_TABLE sample_board)]"
      by code_simp
    then show ?thesis by (simp add: list_all_iff)
  qed
  have d: "fst (preset_show sample_board (sample_ec 0xC2 0xC2 0 0 [])) =
             Inr (sprintf_s ''super_battery'')"
    by code_simp
  note t1 = preset_show_never_fails [where K = sample_board and s = ?s and v = 0 and vs = "[1, 2, 3]"]
  note t2 = preset_show_never_fails [where K = sample_board and s = "fresh_ec 0 []"]
  from t1 b have "\<not> fst (preset_match_cols sample_board 0 (preset_columns sample_board) ?s) \<and>
      preset_show_rows sample_board [0, 1, 2, 3] ?s =
        preset_show_rows sample_board [1, 2, 3]
          (snd (preset_match_cols sample_board 0 (preset_columns sample_board) ?s))"
    by blast
  moreover from t2 c have "fst (preset_show sample_board (fresh_ec 0 [])) = Inr (sprintf_s ''custom'')"
    by blast
  ultimately show ?thesis using a b' d by blast
qed





section \<open>Applying a preset: failures\<close>

lemma ec_write_trace [simp]: "trace (snd (ec_write a d s)) = trace s @ [EcWrite a d]"
  by (simp add: ec_write_def Let_def split: option.splits)







section \<open>Applying a preset: the fan-mode flags\<close>

lemma ec_write_bit_regs:
  "regs (snd (ec_write_bit a i v s)) =
     (if next_ok 2 s then (regs s)(a := set_or_clear (regs s a) i v) else regs s)"
proof (cases "faults s")
  case Nil
  then show ?thesis by (simp add: ec_eval next_ok_def)
next
  case (Cons f fs)
  then show ?thesis
    by (cases fs; cases f) (auto simp: ec_eval next_ok_def numeral_2_eq_2 split: option.splits)
qed

lemma ec_write_bit_next_ok:
  "next_ok (n + 2) s \<Longrightarrow> next_ok n (snd (ec_write_bit a i v s))"
proof (cases "faults s")
  case Nil
  then show ?thesis by (simp add: ec_eval next_ok_def)
next
  case (Cons f fs)
  assume "next_ok (n + 2) s"
  with Cons show ?thesis
    by (cases fs) (auto simp: ec_eval next_ok_def split: option.splits)
qed

lemma next_ok_mono: "next_ok n s \<Longrightarrow> m \<le> n \<Longrightarrow> next_ok m s"
  by (auto simp: next_ok_def list_all_iff dest: in_set_takeD simp: take_take min_def
           dest!: set_take_subset_set_take [THEN subsetD])

lemma bit_clear_target: "\<not> bit (set_or_clear d i False) (unat i)"
  by (simp only: bit_set_or_clear) (auto dest: bit_imp_le_length)

text \<open>
  C5.  Let \<open>s1\<close> be the controller after the column loop of \<^verbatim>\<open>preset_store\<close> for a
  recognised preset.  When the preset is \<open>high_performance\<close> the final step does nothing:
  the result state is \<open>s1\<close>.  Otherwise the final step issues the read-modify-writes that
  clear the advanced and the basic bit of the fan-mode register: when its four transport
  calls succeed both bits are clear afterwards, and in any case no other bit of that
  register and no other register changes.
\<close>

theorem preset_store_validates_fan_modes:
  fixes K :: constants and buf :: string and count :: nat and s :: ec and index :: nat
  defines "s1 \<equiv> preset_write_cols K index (preset_columns K) s"
  defines "s' \<equiv> snd (preset_store K buf count s)"
  defines "fan \<equiv> MSI_EC_FAN_MODE_ADDRESS K"
  assumes "preset_index K buf = Some index"
  shows "(index = MSI_EC_PRESET_HIGH_PERFORMANCE K \<longrightarrow> s' = s1) \<and>
         (index \<noteq> MSI_EC_PRESET_HIGH_PERFORMANCE K \<longrightarrow>
            (next_ok 4 s1 \<longrightarrow>
               \<not> bit (regs s' fan) (unat (MSI_EC_FAN_MODE_ADVANCED_BIT K)) \<and>
               \<not> bit (regs s' fan) (unat (MSI_EC_FAN_MODE_BASIC_BIT K))) \<and>
            (\<forall>j. j \<noteq> unat (MSI_EC_FAN_MODE_ADVANCED_BIT K) \<and>
                 j \<noteq> unat (MSI_EC_FAN_MODE_BASIC_BIT K) \<longrightarrow>
                 bit (regs s' fan) j = bit (regs s1 fan) j) \<and>
            (\<forall>a. a \<noteq> fan \<longrightarrow> regs s' a = regs s1 a) \<and>
            EcRead fan \<in> set (issued s1 s'))"
proof -
  let ?adv = "MSI_EC_FAN_MODE_ADVANCED_BIT K" and ?basic = "MSI_EC_FAN_MODE_BASIC_BIT K"
  have s': "s' = preset_validate_fan_modes K index s1"
    using assms(4) by (simp add: s'_def s1_def preset_store_def)
  have hp: "s' = s1" if "index = MSI_EC_PRESET_HIGH_PERFORMANCE K"
    using that by (simp add: s' preset_validate_fan_modes_def)
  let ?m = "snd (ec_write_bit fan ?adv False s1)"
  have run: "s' = snd (ec_write_bit fan ?basic False ?m)"
    if "index \<noteq> MSI_EC_PRESET_HIGH_PERFORMANCE K"
    using that by (simp add: s' preset_validate_fan_modes_def fan_def Let_def)
  have m_fan: "regs ?m fan = regs s1 fan \<or> regs ?m fan = set_or_clear (regs s1 fan) ?adv False"
    by (simp add: ec_write_bit_regs)
  have m_other: "regs ?m a = regs s1 a" if "a \<noteq> fan" for a
    using that by (simp add: ec_write_bit_regs)
  have f_fan: "regs (snd (ec_write_bit fan ?basic False ?m)) fan = regs ?m fan \<or>
               regs (snd (ec_write_bit fan ?basic False ?m)) fan =
                 set_or_clear (regs ?m fan) ?basic False"
    by (simp add: ec_write_bit_regs)
  have f_other: "regs (snd (ec_write_bit fan ?basic False ?m)) a = regs ?m a" if "a \<noteq> fan" for a
    using that by (simp add: ec_write_bit_regs)
  have cleared: "\<not> bit (regs s' fan) (unat ?adv) \<and> \<not> bit (regs s' fan) (unat ?basic)"
    if nhp: "index \<noteq> MSI_EC_PRESET_HIGH_PERFORMANCE K" and ok: "next_ok 4 s1"
  proof -
    have ok1: "next_ok 2 s1" using ok by (rule next_ok_mono) simp
    have ok2: "next_ok 2 ?m" using ok by (intro ec_write_bit_next_ok) simp
    have "regs s' fan =
        set_or_clear (set_or_clear (regs s1 fan) ?adv False) ?basic False"
      by (simp add: run [OF nhp] ec_write_bit_regs ok1 ok2 del: set_or_clear_eval)
    then show ?thesis
      using bit_clear_target [of "regs s1 fan" ?adv]
        bit_clear_target [of "set_or_clear (regs s1 fan) ?adv False" ?basic]
      by (auto simp: bit_set_or_clear simp del: set_or_clear_eval)
  qed
  have others: "bit (regs s' fan) j = bit (regs s1 fan) j"
    if "index \<noteq> MSI_EC_PRESET_HIGH_PERFORMANCE K" "j \<noteq> unat ?adv" "j \<noteq> unat ?basic" for j
    using that m_fan f_fan
    by (auto simp: run bit_set_or_clear simp del: set_or_clear_eval)
  have frame: "regs s' a = regs s1 a"
    if "index \<noteq> MSI_EC_PRESET_HIGH_PERFORMANCE K" "a \<noteq> fan" for a
    using that by (simp add: run f_other m_other)
  have tried: "EcRead fan \<in> set (issued s1 s')"
    if "index \<noteq> MSI_EC_PRESET_HIGH_PERFORMANCE K"
    using that by (simp add: run issued_def ec_write_bit_trace)
  show ?thesis
    using hp cleared others frame tried by blast
qed

theorem preset_store_validates_fan_modes_witness:
  "preset_index sample_board ''balanced'' = Some 2 \<and>
   2 \<noteq> MSI_EC_PRESET_HIGH_PERFORMANCE sample_board \<and>
   next_ok 4 (preset_write_cols sample_board 2 (preset_columns sample_board)
                (sample_ec 0 0 0xFF 0 [])) \<and>
   regs (preset_write_cols sample_board 2 (preset_columns sample_board)
           (sample_ec 0 0 0xFF 0 [])) 0xF4 = 0xEF \<and>
   regs (snd (preset_store sample_board ''balanced'' 8 (sample_ec 0 0 0xFF 0 []))) 0xF4 = 0x2F \<and>
   \<not> bit (regs (snd (preset_store sample_board ''balanced'' 8 (sample_ec 0 0 0xFF 0 [])))
            (MSI_EC_FAN_MODE_ADDRESS sample_board))
         (unat (MSI_EC_FAN_MODE_ADVANCED_BIT sample_board)) \<and>
   \<not> bit (regs (snd (preset_store sample_board ''balanced'' 8 (sample_ec 0 0 0xFF 0 [])))
            (MSI_EC_FAN_MODE_ADDRESS sample_board))
         (unat (MSI_EC_FAN_MODE_BASIC_BIT sample_board)) \<and>
   preset_index sample_board ''high_performance'' = Some 3 \<and>
   snd (preset_store sample_board ''high_performance'' 17 (sample_ec 0 0 0xFF 0 [])) =
     preset_write_cols sample_board 3 (preset_columns sample_board) (sample_ec 0 0 0xFF 0 []) \<and>
   regs (snd (preset_store sample_board ''high_performance'' 17 (sample_ec 0 0 0xFF 0 []))) 0xF4 = 0xEF"
proof -
  let ?s = "sample_ec 0 0 0xFF 0 []"
  have i: "preset_index sample_board ''balanced'' = Some 2" by code_simp
  have h: "preset_index sample_board ''high_performance'' = Some 3" by code_simp
  have n: "2 \<noteq> MSI_EC_PRESET_HIGH_PERFORMANCE sample_board" by code_simp
  have e: "3 = MSI_EC_PRESET_HIGH_PERFORMANCE sample_board" by code_simp
  have ok: "next_ok 4 (preset_write_cols sample_board 2 (preset_columns sample_board) ?s)"
    by code_simp
  have v1: "regs (preset_write_cols sample_board 2 (preset_columns sample_board) ?s) 0xF4 = 0xEF"
    by code_simp
  have v2: "regs (snd (preset_store sample_board ''balanced'' 8 ?s)) 0xF4 = 0x2F"
    by code_simp
  have v3: "regs (snd (preset_store sample_board ''high_performance'' 17 ?s)) 0xF4 = 0xEF"
    by code_simp
  note t1 = preset_store_validates_fan_modes [OF i, where count = 8 and s = ?s]
  note t2 = preset_store_validates_fan_modes [OF h, where count = 17 and s = ?s]
  from t1 n ok have
    "\<not> bit (regs (snd (preset_store sample_board ''balanced'' 8 ?s))
            (MSI_EC_FAN_MODE_ADDRESS sample_board))
         (unat (MSI_EC_FAN_MODE_ADVANCED_BIT sample_board)) \<and>
     \<not> bit (regs (snd (preset_store sample_board ''balanced'' 8 ?s))
            (MSI_EC_FAN_MODE_ADDRESS sample_board))
         (unat (MSI_EC_FAN_MODE_BASIC_BIT sample_board))"
    by blast
  moreover from t2 e have
    "snd (preset_store sample_board ''high_performance'' 17 ?s) =
       preset_write_cols sample_board 3 (preset_columns sample_board) ?s"
    by blast
  ultimately show ?thesis using i h n ok v1 v2 v3 by blast
qed

section \<open>Firmware release date: what happens to text that does not parse\<close>

lemma ec_read_seq_faults_suffix:
  "\<exists>k. faults (snd (ec_read_seq a n s)) = drop k (faults s)"
proof (induction n arbitrary: a s)
  case 0
  show ?case by (intro exI [of _ 0]) simp
next
  case (Suc n)
  let ?s1 = "snd (ec_read a s)"
  from Suc.IH [of "a + 1" ?s1] obtain k where
    k: "faults (snd (ec_read_seq (a + 1) n ?s1)) = drop k (faults ?s1)" by blast
  show ?case
  proof (cases "fst (ec_read a s)")
    case (Inl e)
    then show ?thesis
      by (intro exI [of _ 1]) (simp add: case_prod_beta drop_Suc)
  next
    case (Inr b)
    with k show ?thesis
      by (intro exI [of _ "Suc k"]) (simp add: case_prod_beta drop_Suc drop_tl split: sum.splits)
  qed
qed

lemma ec_read_seq_Inl:
  "fst (ec_read_seq a n s) = Inl e \<Longrightarrow> Some e \<in> set (faults s)"
proof (induction n arbitrary: a s)
  case 0
  then show ?case by simp
next
  case (Suc n)
  show ?case
  proof (cases "next_fault s")
    case None
    with Suc.prems have "fst (ec_read_seq (a + 1) n (snd (ec_read a s))) = Inl e"
      by (simp add: case_prod_beta ec_read_fst split: sum.splits)
    from Suc.IH [OF this] have "Some e \<in> set (tl (faults s))" by simp
    then show ?thesis by (cases "faults s") simp_all
  next
    case (Some e')
    with Suc.prems have "e' = e" by (simp add: case_prod_beta ec_read_fst)
    with Some show ?thesis by (cases "faults s") (simp_all add: next_fault_def)
  qed
qed

lemma ec_read_seq_ok:
  "next_ok (n + m) s \<Longrightarrow>
     (\<exists>bs. fst (ec_read_seq a n s) = Inr bs) \<and> next_ok m (snd (ec_read_seq a n s))"
proof (induction n arbitrary: a s)
  case 0
  then show ?case by simp
next
  case (Suc n)
  from Suc.prems have nf: "next_fault s = None" and nx: "next_ok (n + m) (snd (ec_read a s))"
    by (cases "faults s"; simp add: next_ok_def next_fault_def)+
  from Suc.IH [OF nx, of "a + 1"] nf show ?case
    by (auto simp: case_prod_beta ec_read_fst)
qed

text \<open>
  C6, as the code has it.  \<^verbatim>\<open>fw_release_date_show\<close> has no parse error: its only failure
  is the error of a register read that failed, and whenever the reads succeed it returns
  a formatted text, whatever the bytes are.  When the date bytes are \<open>09152023\<close> and the
  time bytes \<open>14:30:05\<close> the text is \<open>2023/09/15 14:30:05\<close>.
\<close>

theorem fw_release_date_show_no_parse_error:
  "(\<forall>e. fst (fw_release_date_show K uninit s) = Inl e \<longrightarrow> Some e \<in> set (faults s)) \<and>
   (next_ok (MSI_EC_FW_DATE_LENGTH K + MSI_EC_FW_TIME_LENGTH K) s \<longrightarrow>
      (\<exists>text. fst (fw_release_date_show K uninit s) = Inr text)) \<and>
   (fst (ec_read_seq (MSI_EC_FW_DATE_ADDRESS K) (MSI_EC_FW_DATE_LENGTH K) s) =
      Inr (ascii ''09152023'') \<and>
    fst (ec_read_seq (MSI_EC_FW_TIME_ADDRESS K) (MSI_EC_FW_TIME_LENGTH K)
           (snd (ec_read_seq (MSI_EC_FW_DATE_ADDRESS K) (MSI_EC_FW_DATE_LENGTH K) s))) =
      Inr (ascii ''14:30:05'') \<longrightarrow>
    fst (fw_release_date_show K uninit s) = Inr (''2023/09/15 14:30:05'' @ [newline]))"
proof (intro conjI allI impI)
  let ?r1 = "ec_read_seq (MSI_EC_FW_DATE_ADDRESS K) (MSI_EC_FW_DATE_LENGTH K) s"
  let ?r2 = "ec_read_seq (MSI_EC_FW_TIME_ADDRESS K) (MSI_EC_FW_TIME_LENGTH K) (snd ?r1)"
  {
    fix e assume f: "fst (fw_release_date_show K uninit s) = Inl e"
    then have "fst ?r1 = Inl e \<or> fst ?r2 = Inl e"
      by (auto simp: fw_release_date_show_def Let_def case_prod_beta split: sum.splits)
    moreover from ec_read_seq_faults_suffix [of "MSI_EC_FW_DATE_ADDRESS K" "MSI_EC_FW_DATE_LENGTH K" s]
    have "set (faults (snd ?r1)) \<subseteq> set (faults s)"
      by (auto dest: in_set_dropD)
    ultimately show "Some e \<in> set (faults s)"
      using ec_read_seq_Inl by blast
  }
  {
    assume ok: "next_ok (MSI_EC_FW_DATE_LENGTH K + MSI_EC_FW_TIME_LENGTH K) s"
    from ec_read_seq_ok [OF ok] obtain bs where
      r1: "fst ?r1 = Inr bs" and ok1: "next_ok (MSI_EC_FW_TIME_LENGTH K) (snd ?r1)"
      by blast
    from ec_read_seq_ok [of "MSI_EC_FW_TIME_LENGTH K" 0 "snd ?r1"] ok1 obtain ts where
      r2: "fst ?r2 = Inr ts"
      by auto
    from r1 r2 show "\<exists>text. fst (fw_release_date_show K uninit s) = Inr text"
      by (simp add: fw_release_date_show_def Let_def case_prod_beta)
  }
  {
    assume a: "fst ?r1 = Inr (ascii ''09152023'') \<and> fst ?r2 = Inr (ascii ''14:30:05'')"
    have d: "vsscanf (cstring (ascii ''09152023'')) date_format = [9, 15, 2023]" by code_simp
    have t: "vsscanf (cstring (ascii ''14:30:05'')) time_format = [14, 30, 5]" by code_simp
    have p: "fmt_d 4 2023 = ''2023''" "fmt_d 2 9 = ''09''" "fmt_d 2 15 = ''15''"
      "fmt_d 2 14 = ''14''" "fmt_d 2 30 = ''30''" "fmt_d 2 5 = ''05''"
      by code_simp+
    from a show "fst (fw_release_date_show K uninit s) = Inr (''2023/09/15 14:30:05'' @ [newline])"
      by (simp add: fw_release_date_show_def Let_def case_prod_beta d t assigned_def p)
  }
qed

text \<open>
  C6, as stated, asks for an error when the text does not parse.  On the sample board, with
  the date bytes \<open>Sep 2023\<close> and the time bytes \<open>14h30m05\<close>, the operation succeeds and
  prints the values the locals held before, except for the hour.
\<close>

theorem fw_release_date_show_malformed:
  "fst (fw_release_date_show sample_board epoch
          (fw_ec sample_board (ascii ''Sep 2023'') (ascii ''14h30m05'') [])) =
     Inr (''1970/01/01 14:00:00'' @ [newline])"
  by code_simp

theorem fw_release_date_show_no_parse_error_witness:
  "next_ok (MSI_EC_FW_DATE_LENGTH sample_board + MSI_EC_FW_TIME_LENGTH sample_board)
     (fw_ec sample_board (ascii ''09152023'') (ascii ''14:30:05'') []) \<and>
   fst (ec_read_seq (MSI_EC_FW_DATE_ADDRESS sample_board) (MSI_EC_FW_DATE_LENGTH sample_board)
          (fw_ec sample_board (ascii ''09152023'') (ascii ''14:30:05'') [])) =
     Inr (ascii ''09152023'') \<and>
   fst (ec_read_seq (MSI_EC_FW_TIME_ADDRESS sample_board) (MSI_EC_FW_TIME_LENGTH sample_board)
          (snd (ec_read_seq (MSI_EC_FW_DATE_ADDRESS sample_board)
                  (MSI_EC_FW_DATE_LENGTH sample_board)
                  (fw_ec sample_board (ascii ''09152023'') (ascii ''14:30:05'') [])))) =
     Inr (ascii ''14:30:05'') \<and>
   fst (fw_release_date_show sample_board epoch
          (fw_ec sample_board (ascii ''09152023'') (ascii ''14:30:05'') [])) =
     Inr (''2023/09/15 14:30:05'' @ [newline]) \<and>
   fst (fw_release_date_show sample_board epoch
          (fw_ec sample_board (ascii ''09152023'') (ascii ''14:30:05'') [None, None, Some ETIME])) =
     Inl ETIME \<and>
   Some ETIME \<in> set (faults (fw_ec sample_board (ascii ''09152023'') (ascii ''14:30:05'')
                             [None, None, Some ETIME]))"
proof -
  let ?s = "fw_ec sample_board (ascii ''09152023'') (ascii ''14:30:05'') []"
  let ?f = "fw_ec sample_board (ascii ''09152023'') (ascii ''14:30:05'') [None, None, Some ETIME]"
  have ok: "next_ok (MSI_EC_FW_DATE_LENGTH sample_board + MSI_EC_FW_TIME_LENGTH sample_board) ?s"
    by code_simp
  have d: "fst (ec_read_seq (MSI_EC_FW_DATE_ADDRESS sample_board)
                  (MSI_EC_FW_DATE_LENGTH sample_board) ?s) = Inr (ascii ''09152023'')"
    by code_simp
  have t: "fst (ec_read_seq (MSI_EC_FW_TIME_ADDRESS sample_board) (MSI_EC_FW_TIME_LENGTH sample_board)
          (snd (ec_read_seq (MSI_EC_FW_DATE_ADDRESS sample_board)
                  (MSI_EC_FW_DATE_LENGTH sample_board) ?s))) = Inr (ascii ''14:30:05'')"
    by code_simp
  have e: "fst (fw_release_date_show sample_board epoch ?f) = Inl ETIME" by code_simp
  note t1 = fw_release_date_show_no_parse_error [where K = sample_board and uninit = epoch and s = ?s]
  note t2 = fw_release_date_show_no_parse_error [where K = sample_board and uninit = epoch and s = ?f]
  from t1 d t have "fst (fw_release_date_show sample_board epoch ?s) =
     Inr (''2023/09/15 14:30:05'' @ [newline])"
    by blast
  moreover from t2 e have "Some ETIME \<in> set (faults ?f)" by blast
  ultimately show ?thesis using ok d t e by blast
qed

section \<open>Applying the balanced preset and classifying again\<close>














end
